theory Spec2Isabelle
  imports Complex_Main "HOL-Library.Sublist" "HOL-Library.Multiset"
begin

section \<open>Strings of the frontend\<close>

text \<open>
  The TypeScript sources work on JavaScript strings. A string is modelled as the list of
  the bytes of its UTF-8 form. The separators and prefixes the code looks for (the line
  feed, the dot and the prefix \<open>data: \<close>) are ASCII, and a byte of an ASCII character
  is no part of another character, so splitting and prefix tests on the bytes give what
  they give on the text.
\<close>

text \<open>
  \<open>s.split(c)\<close> for a separator of one character. The result is never empty:
  \<open>''.split('.')\<close> is \<open>['']\<close> and \<open>'a.'.split('.')\<close> is \<open>['a', '']\<close>.
\<close>

fun split_str :: "char \<Rightarrow> string \<Rightarrow> string list" where
  "split_str c [] = [[]]"
| "split_str c (x # xs) =
     (if x = c then [] # split_str c xs
      else (case split_str c xs of
              [] \<Rightarrow> [[x]]
            | l # ls \<Rightarrow> (x # l) # ls))"

text \<open>\<open>s.startsWith(p)\<close> and \<open>xs.join(sep)\<close>.\<close>

definition startsWith :: "string \<Rightarrow> string \<Rightarrow> bool" where
  "startsWith s p = (take (length p) s = p)"

fun join :: "string \<Rightarrow> string list \<Rightarrow> string" where
  "join sep [] = []"
| "join sep [x] = x"
| "join sep (x # y # ys) = x @ sep @ join sep (y # ys)"

text \<open>
  The characters \<open>String.prototype.trim\<close> strips, each in UTF-8: the white space of
  ECMAScript (U+0009, U+000B, U+000C, U+FEFF and the category Zs, which is U+0020, U+00A0,
  U+1680, U+2000 to U+200A, U+202F, U+205F and U+3000) and its line terminators (U+000A,
  U+000D, U+2028, U+2029).
\<close>

definition whiteSpace :: "string list" where
  "whiteSpace =
     [[CHR 0x09], [CHR 0x0A], [CHR 0x0B], [CHR 0x0C], [CHR 0x0D], [CHR 0x20],
      [CHR 0xC2, CHR 0xA0],
      [CHR 0xE1, CHR 0x9A, CHR 0x80],
      [CHR 0xE2, CHR 0x80, CHR 0x80], [CHR 0xE2, CHR 0x80, CHR 0x81],
      [CHR 0xE2, CHR 0x80, CHR 0x82], [CHR 0xE2, CHR 0x80, CHR 0x83],
      [CHR 0xE2, CHR 0x80, CHR 0x84], [CHR 0xE2, CHR 0x80, CHR 0x85],
      [CHR 0xE2, CHR 0x80, CHR 0x86], [CHR 0xE2, CHR 0x80, CHR 0x87],
      [CHR 0xE2, CHR 0x80, CHR 0x88], [CHR 0xE2, CHR 0x80, CHR 0x89],
      [CHR 0xE2, CHR 0x80, CHR 0x8A],
      [CHR 0xE2, CHR 0x80, CHR 0xA8], [CHR 0xE2, CHR 0x80, CHR 0xA9],
      [CHR 0xE2, CHR 0x80, CHR 0xAF],
      [CHR 0xE2, CHR 0x81, CHR 0x9F],
      [CHR 0xE3, CHR 0x80, CHR 0x80],
      [CHR 0xEF, CHR 0xBB, CHR 0xBF]]"

text \<open>
  Stripping at the front: as long as the string begins with one of the sequences \<open>ws\<close>,
  that sequence is dropped.
\<close>

function strip_leading :: "string list \<Rightarrow> string \<Rightarrow> string" where
  "strip_leading ws s =
     (case find (\<lambda>w. w \<noteq> [] \<and> startsWith s w) ws of
        None \<Rightarrow> s
      | Some w \<Rightarrow> strip_leading ws (drop (length w) s))"
  by pat_completeness auto
termination
proof (relation "measure (\<lambda>(ws, s). length s)")
  show "wf (measure (\<lambda>(ws, s). length s))" by simp
next
  fix ws :: "string list" and s w :: string
  assume "find (\<lambda>w. w \<noteq> [] \<and> startsWith s w) ws = Some w"
  then have "w \<noteq> []" and "take (length w) s = w"
    by (auto simp: find_Some_iff startsWith_def)
  then have "s \<noteq> []" by auto
  with \<open>w \<noteq> []\<close> show "((ws, drop (length w) s), (ws, s)) \<in> measure (\<lambda>(ws, s). length s)"
    by simp
qed

declare strip_leading.simps [simp del]

text \<open>
  \<open>s.trim()\<close>: white space is stripped at the front and at the end. A sequence at the
  end of a string is one at the front of the reversed string, reversed.
\<close>

definition trim :: "string \<Rightarrow> string" where
  "trim s = rev (strip_leading (map rev whiteSpace) (rev (strip_leading whiteSpace s)))"


text \<open>
  \<open>s.toLowerCase()\<close>. The letters A to Z have their lower-case form, and the Kelvin sign
  (U+212A) becomes \<open>k\<close>: these are the characters whose lower-case form is ASCII. Any
  other character is left as it is, where JavaScript may give another character that is
  not ASCII either.
\<close>

definition lower_char :: "char \<Rightarrow> char" where
  "lower_char c =
     (case map_of (zip ''ABCDEFGHIJKLMNOPQRSTUVWXYZ'' ''abcdefghijklmnopqrstuvwxyz'') c of
        None \<Rightarrow> c
      | Some l \<Rightarrow> l)"

definition kelvin_sign :: string where
  "kelvin_sign = [CHR 0xE2, CHR 0x84, CHR 0xAA]"

fun toLowerCase :: "string \<Rightarrow> string" where
  "toLowerCase [] = []"
| "toLowerCase (c # s) =
     (if take 3 (c # s) = kelvin_sign then CHR ''k'' # toLowerCase (drop 2 s)
      else lower_char c # toLowerCase s)"

text \<open>
  \<open>a || b\<close> on a string that may be undefined: the empty string is falsy, as
  \<open>undefined\<close> is.
\<close>

fun js_or :: "string option \<Rightarrow> string \<Rightarrow> string" where
  "js_or None fallback = fallback"
| "js_or (Some s) fallback = (if s = [] then fallback else s)"

lemma split_str_nonempty: "split_str c s \<noteq> []"
  by (induction s) (auto split: list.splits)

lemma split_str_append:
  "split_str c (a @ b) = butlast (split_str c a) @ split_str c (last (split_str c a) @ b)"
proof (induction a)
  case Nil
  show ?case by simp
next
  case (Cons x xs)
  show ?case
  proof (cases "x = c")
    case True
    with Cons show ?thesis by (simp add: split_str_nonempty)
  next
    case False
    obtain l ls where sp: "split_str c xs = l # ls"
      using split_str_nonempty [of c xs] by (cases "split_str c xs") auto
    show ?thesis
    proof (cases ls)
      case Nil
      with False sp Cons show ?thesis by simp
    next
      case (Cons l' ls')
      with False sp Cons.IH show ?thesis by simp
    qed
  qed
qed

subsection \<open>Strings of white space\<close>








lemma toLowerCase_other:
  "c \<noteq> CHR 0xE2 \<Longrightarrow> toLowerCase (c # s) = lower_char c # toLowerCase s"
  by (simp add: kelvin_sign_def)

section \<open>The API client\<close>

text \<open>
  The class \<open>APIClient\<close>. An exception is a value: an operation returns \<open>Inl e\<close>
  where the source throws \<open>e\<close> (or its promise rejects with \<open>e\<close>).
\<close>

datatype exn = Error string | SyntaxError string | TypeError string

fun message :: "exn \<Rightarrow> string" where
  "message (Error m) = m"
| "message (SyntaxError m) = m"
| "message (TypeError m) = m"

subsection \<open>JSON values\<close>

text \<open>
  What \<open>JSON.parse\<close> and \<open>response.json()\<close> give: any JSON value. The frontend
  declares these values \<open>any\<close> and reads their properties unchecked. Of a number the
  model keeps what the code can observe: whether it is zero, and the text it is turned
  into. The entries of an object are kept in the order of the text.
\<close>

datatype json =
    JNull
  | JBool bool
  | JNumber bool string
  | JString string
  | JArray "json list"
  | JObject "(string \<times> json) list"

text \<open>
  \<open>v.k\<close> on a value that is not null, for a key \<open>k\<close> that no prototype has (the
  frontend reads \<open>detail\<close>, \<open>type\<close>, \<open>sources\<close>, \<open>content\<close>, \<open>message\<close>,
  \<open>filename\<close> and \<open>chunks_created\<close>): the entry of an object, the last one when the
  key is repeated, and \<open>undefined\<close> (\<open>None\<close>) in every other case.
\<close>

definition field :: "json \<Rightarrow> string \<Rightarrow> json option" where
  "field v k = (case v of JObject kvs \<Rightarrow> map_of (rev kvs) k | _ \<Rightarrow> None)"

text \<open>
  \<open>v.k\<close> on any value: reading a property of \<open>null\<close> throws a type error. Its message
  is the one of V8; other engines word it otherwise.
\<close>

definition null_read :: "string \<Rightarrow> string" where
  "null_read k = ''Cannot read properties of null (reading '' @ [CHR 0x27] @ k @ [CHR 0x27] @ '')''"

definition property :: "json \<Rightarrow> string \<Rightarrow> exn + json option" where
  "property v k = (if v = JNull then Inl (TypeError (null_read k)) else Inr (field v k))"

text \<open>
  Whether a value counts as true: \<open>undefined\<close>, \<open>null\<close>, \<open>false\<close>, zero and the
  empty string do not, anything else does.
\<close>

fun truthy :: "json option \<Rightarrow> bool" where
  "truthy None = False"
| "truthy (Some JNull) = False"
| "truthy (Some (JBool b)) = b"
| "truthy (Some (JNumber zero t)) = (\<not> zero)"
| "truthy (Some (JString s)) = (s \<noteq> [])"
| "truthy (Some (JArray xs)) = True"
| "truthy (Some (JObject kvs)) = True"

text \<open>
  The string a value is turned into, by a template literal, by \<open>+\<close> on a string and by
  \<open>new Error\<close>. An array is its elements joined by commas, \<open>null\<close> elements giving
  nothing.
\<close>

fun to_string :: "json \<Rightarrow> string" where
  "to_string JNull = ''null''"
| "to_string (JBool b) = (if b then ''true'' else ''false'')"
| "to_string (JNumber zero t) = t"
| "to_string (JString s) = s"
| "to_string (JArray xs) = join '','' (map (\<lambda>x. if x = JNull then [] else to_string x) xs)"
| "to_string (JObject kvs) = ''[object Object]''"

definition text_of :: "json option \<Rightarrow> string" where
  "text_of v = (case v of None \<Rightarrow> ''undefined'' | Some x \<Rightarrow> to_string x)"

text \<open>\<open>new Error(v)\<close>: the message is the text of \<open>v\<close>, and empty when \<open>v\<close> is undefined.\<close>

definition new_Error :: "json option \<Rightarrow> exn" where
  "new_Error v = (case v of None \<Rightarrow> Error [] | Some x \<Rightarrow> Error (to_string x))"

text \<open>\<open>v || 'text'\<close>: the value itself when it counts as true, the string when not.\<close>

definition or_else :: "json option \<Rightarrow> string \<Rightarrow> json option" where
  "or_else v fallback = (if truthy v then v else Some (JString fallback))"

subsection \<open>Requests and responses\<close>

text \<open>
  The interface \<open>QueryRequest\<close>. An optional field that is \<open>undefined\<close> is
  \<open>None\<close>: \<open>JSON.stringify\<close> leaves such a field out of the request body.
\<close>

record QueryRequest =
  query :: string
  top_k :: "nat option"
  filename :: "string option"
  stream :: "bool option"

text \<open>The \<open>File\<close> of the browser, as far as the frontend reads it.\<close>

record File =
  file_name :: string

datatype http_method = GET | POST | DELETE

datatype http_body = NoBody | FormData "(string \<times> File) list" | JsonBody QueryRequest

text \<open>
  The request \<open>fetch\<close> is called with; \<open>verb\<close> is the option \<open>method\<close>, which is
  \<open>GET\<close> when the call gives none.
\<close>

record http_request =
  verb :: http_method
  url :: string
  headers :: "(string \<times> string) list"
  body :: http_body

text \<open>
  The body of a streamed response as its reader delivers it: the decoded text of each
  successful \<open>reader.read()\<close>, then either \<open>done\<close> or a rejected read. The
  \<open>TextDecoder\<close> is used in its streaming mode, which holds back the bytes of a character
  cut by the end of a read: however the same bytes are cut into reads, the decoded pieces
  concatenate to the same text.
\<close>

record sse_body =
  reads :: "string list"
  read_error :: "string option"

text \<open>
  A response: \<open>json\<close> is what \<open>response.json()\<close> resolves to, or \<open>Inl m\<close> when it
  rejects with a syntax error; \<open>stream_body\<close> is \<open>None\<close> when \<open>response.body\<close> is
  null.
\<close>

record response =
  ok :: bool
  json :: "string + json"
  stream_body :: "sse_body option"

text \<open>
  The network: the requests sent so far, and what the next calls of \<open>fetch\<close> will
  resolve to, one entry a call. A client that sent a request again would be seen in
  \<open>sent\<close>.
\<close>

record net =
  sent :: "http_request list"
  script :: "(exn + response) list"

definition fetch :: "http_request \<Rightarrow> net \<Rightarrow> (exn + response) \<times> net" where
  "fetch req n =
     (case script n of
        [] \<Rightarrow> (Inl (TypeError ''Failed to fetch''), n\<lparr>sent := sent n @ [req]\<rparr>)
      | r # rs \<Rightarrow> (r, n\<lparr>sent := sent n @ [req], script := rs\<rparr>))"

text \<open>\<open>await response.json()\<close>.\<close>

definition response_json :: "response \<Rightarrow> exn + json" where
  "response_json response =
     (case json response of Inl m \<Rightarrow> Inl (SyntaxError m) | Inr v \<Rightarrow> Inr v)"

text \<open>
  The tail every operation but \<open>healthCheck\<close> shares:
  \<^verbatim>\<open>
  if (!response.ok) {
      const error = await response.json();
      throw new Error(error.detail || fallback);
  }
  return response.json();
  \<close>
\<close>

definition json_or_throw :: "string \<Rightarrow> response \<Rightarrow> exn + json" where
  "json_or_throw fallback response =
     (if \<not> ok response then
        (case response_json response of
           Inl e \<Rightarrow> Inl e
         | Inr error \<Rightarrow>
             (case property error ''detail'' of
                Inl e \<Rightarrow> Inl e
              | Inr detail \<Rightarrow> Inl (new_Error (or_else detail fallback))))
      else response_json response)"

definition uploadDocument :: "string \<Rightarrow> File \<Rightarrow> net \<Rightarrow> (exn + json) \<times> net" where
  "uploadDocument baseURL f n =
     (case fetch \<lparr>verb = POST, url = baseURL @ ''/upload'', headers = [],
                  body = FormData [(''file'', f)]\<rparr> n of
        (Inl e, n') \<Rightarrow> (Inl e, n')
      | (Inr response, n') \<Rightarrow> (json_or_throw ''Upload failed'' response, n'))"

text \<open>
  The operation \<open>query\<close> of the class; the name \<open>query\<close> is taken by the field of
  \<open>QueryRequest\<close>.
\<close>

definition client_query :: "string \<Rightarrow> QueryRequest \<Rightarrow> net \<Rightarrow> (exn + json) \<times> net" where
  "client_query baseURL request n =
     (case fetch \<lparr>verb = POST, url = baseURL @ ''/query'',
                  headers = [(''Content-Type'', ''application/json'')],
                  body = JsonBody request\<rparr> n of
        (Inl e, n') \<Rightarrow> (Inl e, n')
      | (Inr response, n') \<Rightarrow> (json_or_throw ''Query failed'' response, n'))"

definition listDocuments :: "string \<Rightarrow> net \<Rightarrow> (exn + json) \<times> net" where
  "listDocuments baseURL n =
     (case fetch \<lparr>verb = GET, url = baseURL @ ''/documents'', headers = [],
                  body = NoBody\<rparr> n of
        (Inl e, n') \<Rightarrow> (Inl e, n')
      | (Inr response, n') \<Rightarrow> (json_or_throw ''Failed to list documents'' response, n'))"

text \<open>
  \<open>encodeURIComponent\<close> is a function of the platform: the operation takes it as the
  parameter \<open>enc\<close>.
\<close>

definition deleteDocument ::
  "(string \<Rightarrow> string) \<Rightarrow> string \<Rightarrow> string \<Rightarrow> net \<Rightarrow> (exn + json) \<times> net" where
  "deleteDocument enc baseURL fname n =
     (case fetch \<lparr>verb = DELETE, url = baseURL @ ''/documents/'' @ enc fname, headers = [],
                  body = NoBody\<rparr> n of
        (Inl e, n') \<Rightarrow> (Inl e, n')
      | (Inr response, n') \<Rightarrow> (json_or_throw ''Failed to delete document'' response, n'))"

definition healthCheck :: "string \<Rightarrow> net \<Rightarrow> (exn + json) \<times> net" where
  "healthCheck baseURL n =
     (case fetch \<lparr>verb = GET, url = baseURL @ ''/'', headers = [], body = NoBody\<rparr> n of
        (Inl e, n') \<Rightarrow> (Inl e, n')
      | (Inr response, n') \<Rightarrow> (response_json response, n'))"

subsection \<open>The streamed query\<close>

text \<open>
  What running the generator \<open>queryStream\<close> to its end gives: the values it yields, in
  order, and the exception that ends it, if any.
\<close>

type_synonym outcome = "json list \<times> exn option"

text \<open>
  The inner loop over the complete lines of one read. \<open>JSON.parse\<close> is the parameter
  \<open>parse\<close>; it gives \<open>Inl m\<close> where it throws a syntax error.
  \<^verbatim>\<open>
  for (const line of lines) {
      if (line.startsWith('data: ')) {
          const data = JSON.parse(line.slice(6));
          yield data;
      }
  }
  \<close>
\<close>

fun yield_lines :: "(string \<Rightarrow> string + json) \<Rightarrow> string list \<Rightarrow> outcome" where
  "yield_lines parse [] = ([], None)"
| "yield_lines parse (line # lines) =
     (if startsWith line ''data: '' then
        (case parse (drop 6 line) of
           Inl m \<Rightarrow> ([], Some (SyntaxError m))
         | Inr data \<Rightarrow> (case yield_lines parse lines of (es, t) \<Rightarrow> (data # es, t)))
      else yield_lines parse lines)"

text \<open>
  The outer loop, from the buffer and the reads still to come:
  \<^verbatim>\<open>
  while (true) {
      const { done, value } = await reader.read();
      if (done) break;
      buffer += decoder.decode(value, { stream: true });
      const lines = buffer.split('\n');
      buffer = lines.pop() || '';
      for (const line of lines) ...
  }
  \<close>
  \<open>lines\<close> is never empty, so \<open>pop\<close> takes its last element.
\<close>

fun read_loop ::
  "(string \<Rightarrow> string + json) \<Rightarrow> string option \<Rightarrow> string \<Rightarrow> string list \<Rightarrow> outcome" where
  "read_loop parse err buffer [] = ([], map_option TypeError err)"
| "read_loop parse err buffer (v # vs) =
     (let lines = split_str (CHR 0x0A) (buffer @ v) in
      case yield_lines parse (butlast lines) of
        (es, Some e) \<Rightarrow> (es, Some e)
      | (es, None) \<Rightarrow>
          (case read_loop parse err (js_or (Some (last lines)) []) vs of
             (es', t) \<Rightarrow> (es @ es', t)))"

definition queryStream ::
  "(string \<Rightarrow> string + json) \<Rightarrow> string \<Rightarrow> QueryRequest \<Rightarrow> net \<Rightarrow> outcome \<times> net" where
  "queryStream parse baseURL request n =
     (case fetch \<lparr>verb = POST, url = baseURL @ ''/query/stream'',
                  headers = [(''Content-Type'', ''application/json'')],
                  body = JsonBody request\<rparr> n of
        (Inl e, n') \<Rightarrow> (([], Some e), n')
      | (Inr response, n') \<Rightarrow>
          (if \<not> ok response then
             (case response_json response of
                Inl e \<Rightarrow> (([], Some e), n')
              | Inr error \<Rightarrow>
                  (case property error ''detail'' of
                     Inl e \<Rightarrow> (([], Some e), n')
                   | Inr detail \<Rightarrow> (([], Some (new_Error (or_else detail ''Query failed''))), n')))
           else
             (case stream_body response of
                None \<Rightarrow> (([], Some (Error ''No response body'')), n')
              | Some b \<Rightarrow> (read_loop parse (read_error b) [] (reads b), n'))))"

subsection \<open>The stream does not depend on how it is cut into reads\<close>

text \<open>
  The stream as a whole, whatever the reads were: its complete lines are those a line
  feed ends, its payloads are what follows the prefix \<open>data: \<close> on the complete
  lines that have it, and the events are the payloads parsed in order, up to the first
  that \<open>JSON.parse\<close> refuses.
\<close>

definition complete_lines :: "string \<Rightarrow> string list" where
  "complete_lines text = butlast (split_str (CHR 0x0A) text)"

definition data_payloads :: "string \<Rightarrow> string list" where
  "data_payloads text =
     map (drop 6) (filter (\<lambda>line. startsWith line ''data: '') (complete_lines text))"

fun parse_payloads :: "(string \<Rightarrow> string + json) \<Rightarrow> string list \<Rightarrow> outcome" where
  "parse_payloads parse [] = ([], None)"
| "parse_payloads parse (x # xs) =
     (case parse x of
        Inl m \<Rightarrow> ([], Some (SyntaxError m))
      | Inr data \<Rightarrow> (data # fst (parse_payloads parse xs), snd (parse_payloads parse xs)))"

definition sse_outcome ::
  "(string \<Rightarrow> string + json) \<Rightarrow> string option \<Rightarrow> string \<Rightarrow> outcome" where
  "sse_outcome parse err text =
     (case parse_payloads parse (data_payloads text) of
        (es, Some e) \<Rightarrow> (es, Some e)
      | (es, None) \<Rightarrow> (es, map_option TypeError err))"

lemma yield_lines_payloads:
  "yield_lines parse ls =
     parse_payloads parse (map (drop 6) (filter (\<lambda>line. startsWith line ''data: '') ls))"
  by (induction ls) (auto split: sum.splits prod.splits)

lemma parse_payloads_append:
  "parse_payloads parse (xs @ ys) =
     (case parse_payloads parse xs of
        (es, Some e) \<Rightarrow> (es, Some e)
      | (es, None) \<Rightarrow> (case parse_payloads parse ys of (es', t) \<Rightarrow> (es @ es', t)))"
  by (induction xs) (auto split: sum.splits prod.splits option.splits)

lemma split_str_no_sep: "c \<notin> set s \<Longrightarrow> split_str c s = [s]"
  by (induction s) auto

lemma last_split_str_no_sep: "c \<notin> set (last (split_str c s))"
  by (induction s) (auto simp: split_str_nonempty split: list.splits)

lemma butlast_split_str_append:
  "butlast (split_str c (a @ b)) =
     butlast (split_str c a) @ butlast (split_str c (last (split_str c a) @ b))"
  by (subst split_str_append) (simp add: butlast_append split_str_nonempty)

lemma read_loop_whole:
  "CHR 0x0A \<notin> set buffer \<Longrightarrow>
   read_loop parse err buffer vs = sse_outcome parse err (buffer @ concat vs)"
proof (induction vs arbitrary: buffer)
  case Nil
  then show ?case
    by (simp add: sse_outcome_def data_payloads_def complete_lines_def split_str_no_sep)
next
  case (Cons v vs)
  let ?lines = "split_str (CHR 0x0A) (buffer @ v)"
  have nl: "CHR 0x0A \<notin> set (last ?lines)" by (rule last_split_str_no_sep)
  have bl: "complete_lines ((buffer @ v) @ concat vs) =
      butlast ?lines @ complete_lines (last ?lines @ concat vs)"
    unfolding complete_lines_def by (rule butlast_split_str_append)
  show ?case
    using Cons.IH [OF nl] bl
    by (simp add: sse_outcome_def data_payloads_def yield_lines_payloads parse_payloads_append
      split: prod.splits option.splits)
qed

lemma fetch_scripted:
  "script n = r # rest \<Longrightarrow> fetch req n = (r, n\<lparr>sent := sent n @ [req], script := rest\<rparr>)"
  by (simp add: fetch_def)

lemma sent_fetch: "sent (snd (fetch req n)) = sent n @ [req]"
  by (simp add: fetch_def split: list.splits)

text \<open>
  The events the server sends on \<open>/query/stream\<close>, as the chat interface tells them
  apart by their field \<open>type\<close>: \<open>sources\<close> carries the field \<open>sources\<close>, \<open>chunk\<close>
  the field \<open>content\<close>, \<open>error\<close> the field \<open>message\<close>.
\<close>

definition sources_event :: "json \<Rightarrow> json" where
  "sources_event ss = JObject [(''type'', JString ''sources''), (''sources'', ss)]"

definition chunk_event :: "string \<Rightarrow> json" where
  "chunk_event x = JObject [(''type'', JString ''chunk''), (''content'', JString x)]"

definition error_event :: "string \<Rightarrow> json" where
  "error_event m = JObject [(''type'', JString ''error''), (''message'', JString m)]"

text \<open>
  Data for evaluating the definitions: a stand-in for \<open>JSON.parse\<close> that reads the
  first character of a payload as the type of the event (\<open>S\<close>, \<open>C\<close>, \<open>E\<close>, and
  \<open>?\<close> for an event of another type), reads \<open>null\<close> as null and refuses anything
  else; and a successful streamed response.
\<close>

definition toy_parse :: "string \<Rightarrow> string + json" where
  "toy_parse s =
     (if startsWith s ''S'' then Inr (sources_event (JArray [JString (drop 1 s)]))
      else if startsWith s ''C'' then Inr (chunk_event (drop 1 s))
      else if startsWith s ''E'' then Inr (error_event (drop 1 s))
      else if startsWith s ''?'' then Inr (JObject [(''type'', JString ''ping'')])
      else if s = ''null'' then Inr JNull
      else Inl ''Unexpected token'')"

definition streamed :: "string list \<Rightarrow> response" where
  "streamed rs =
     \<lparr>ok = True, json = Inl ''Unexpected token d'',
      stream_body = Some \<lparr>reads = rs, read_error = None\<rparr>\<rparr>"

text \<open>
  Claim C8. Two streamed responses whose reads concatenate to the same text (and end the
  same way) make \<open>queryStream\<close> yield the same events and end the same way. The
  result is that of the whole text: the payloads of the complete lines that begin with
  \<open>data: \<close>, parsed in stream order; a trailing line that no line feed ends and
  every other line are ignored.
\<close>

theorem queryStream_partition_independent:
  assumes "script n1 = Inr r1 # rest1" and "ok r1" and "stream_body r1 = Some b1"
    and "script n2 = Inr r2 # rest2" and "ok r2" and "stream_body r2 = Some b2"
    and "concat (reads b1) = concat (reads b2)" and "read_error b1 = read_error b2"
  shows "fst (queryStream parse baseURL request n1) = fst (queryStream parse baseURL request n2)
       \<and> fst (queryStream parse baseURL request n1)
           = sse_outcome parse (read_error b1) (concat (reads b1))"
proof -
  have "fst (queryStream parse baseURL request n1) = read_loop parse (read_error b1) [] (reads b1)"
    using assms(1-3) by (simp add: queryStream_def fetch_scripted)
  moreover have "fst (queryStream parse baseURL request n2) = read_loop parse (read_error b2) [] (reads b2)"
    using assms(4-6) by (simp add: queryStream_def fetch_scripted)
  ultimately show ?thesis
    using assms(7,8) by (simp add: read_loop_whole)
qed

theorem queryStream_partition_witness:
  "fst (queryStream toy_parse ''http://localhost:8000''
         \<lparr>query = ''q'', top_k = Some 5, filename = None, stream = Some True\<rparr>
         \<lparr>sent = [], script = [Inr (streamed [''data: Ca\<newline>da'', ''ta: Cb\<newline>id: 7\<newline>data: Cc''])]\<rparr>)
     = ([chunk_event ''a'', chunk_event ''b''], None)
   \<and> fst (queryStream toy_parse ''http://localhost:8000''
         \<lparr>query = ''q'', top_k = Some 5, filename = None, stream = Some True\<rparr>
         \<lparr>sent = [], script = [Inr (streamed [''data: Ca'', ''\<newline>data: Cb\<newline>id: 7\<newline>d'', ''ata: Cc''])]\<rparr>)
     = ([chunk_event ''a'', chunk_event ''b''], None)"
proof -
  let ?b1 = "\<lparr>reads = [''data: Ca\<newline>da'', ''ta: Cb\<newline>id: 7\<newline>data: Cc''], read_error = None\<rparr>"
  let ?b2 = "\<lparr>reads = [''data: Ca'', ''\<newline>data: Cb\<newline>id: 7\<newline>d'', ''ata: Cc''], read_error = None\<rparr>"
  let ?n1 = "\<lparr>sent = [], script = [Inr (streamed (reads ?b1))]\<rparr>"
  let ?n2 = "\<lparr>sent = [], script = [Inr (streamed (reads ?b2))]\<rparr>"
  have same: "concat (reads ?b1) = concat (reads ?b2)" by simp
  have whole: "sse_outcome toy_parse None (concat (reads ?b1)) = ([chunk_event ''a'', chunk_event ''b''], None)"
    by (simp add: sse_outcome_def data_payloads_def complete_lines_def startsWith_def toy_parse_def)
  let ?q1 = "fst (queryStream toy_parse ''http://localhost:8000''
         \<lparr>query = ''q'', top_k = Some 5, filename = None, stream = Some True\<rparr> ?n1)"
  let ?q2 = "fst (queryStream toy_parse ''http://localhost:8000''
         \<lparr>query = ''q'', top_k = Some 5, filename = None, stream = Some True\<rparr> ?n2)"
  have both: "?q1 = ?q2 \<and> ?q1 = sse_outcome toy_parse (read_error ?b1) (concat (reads ?b1))"
    by (rule queryStream_partition_independent [where ?r1.0 = "streamed (reads ?b1)"
          and ?r2.0 = "streamed (reads ?b2)" and ?rest1.0 = "[]" and ?rest2.0 = "[]"
          and ?b1.0 = ?b1 and ?b2.0 = ?b2 and ?n1.0 = ?n1 and ?n2.0 = ?n2])
       (simp_all add: streamed_def)
  have q1: "?q1 = ([chunk_event ''a'', chunk_event ''b''], None)"
    using conjunct2 [OF both] whole by simp
  have q2: "?q2 = ([chunk_event ''a'', chunk_event ''b''], None)"
    using conjunct1 [OF both] q1 by simp
  from q1 q2 show ?thesis by simp
qed

text \<open>
  Claim C7. Each operation of the client sends one request to its endpoint: upload is
  \<open>POST /upload\<close>, questions are \<open>POST /query\<close> and \<open>POST /query/stream\<close>,
  listing is \<open>GET /documents\<close>, deletion is \<open>DELETE /documents/\<close> followed by the
  URL-encoded file name, and the health check is \<open>GET /\<close>.
\<close>

theorem client_endpoints:
  "sent (snd (uploadDocument baseURL f n))
     = sent n @ [\<lparr>verb = POST, url = baseURL @ ''/upload'', headers = [],
                  body = FormData [(''file'', f)]\<rparr>]
   \<and> sent (snd (client_query baseURL request n))
     = sent n @ [\<lparr>verb = POST, url = baseURL @ ''/query'',
                  headers = [(''Content-Type'', ''application/json'')], body = JsonBody request\<rparr>]
   \<and> sent (snd (queryStream parse baseURL request n))
     = sent n @ [\<lparr>verb = POST, url = baseURL @ ''/query/stream'',
                  headers = [(''Content-Type'', ''application/json'')], body = JsonBody request\<rparr>]
   \<and> sent (snd (listDocuments baseURL n))
     = sent n @ [\<lparr>verb = GET, url = baseURL @ ''/documents'', headers = [], body = NoBody\<rparr>]
   \<and> sent (snd (deleteDocument enc baseURL fname n))
     = sent n @ [\<lparr>verb = DELETE, url = baseURL @ ''/documents/'' @ enc fname, headers = [],
                  body = NoBody\<rparr>]
   \<and> sent (snd (healthCheck baseURL n))
     = sent n @ [\<lparr>verb = GET, url = baseURL @ ''/'', headers = [], body = NoBody\<rparr>]"
proof -
  have up: "snd (uploadDocument baseURL f n) = snd (fetch \<lparr>verb = POST, url = baseURL @ ''/upload'', headers = [],
                  body = FormData [(''file'', f)]\<rparr> n)"
    by (simp add: uploadDocument_def split: prod.splits sum.splits)
  have q: "snd (client_query baseURL request n) = snd (fetch \<lparr>verb = POST, url = baseURL @ ''/query'',
                  headers = [(''Content-Type'', ''application/json'')], body = JsonBody request\<rparr> n)"
    by (simp add: client_query_def split: prod.splits sum.splits)
  have qs: "snd (queryStream parse baseURL request n) = snd (fetch \<lparr>verb = POST, url = baseURL @ ''/query/stream'',
                  headers = [(''Content-Type'', ''application/json'')], body = JsonBody request\<rparr> n)"
    by (simp add: queryStream_def split: prod.splits sum.splits option.splits)
  have l: "snd (listDocuments baseURL n) = snd (fetch \<lparr>verb = GET, url = baseURL @ ''/documents'', headers = [], body = NoBody\<rparr> n)"
    by (simp add: listDocuments_def split: prod.splits sum.splits)
  have d: "snd (deleteDocument enc baseURL fname n) = snd (fetch \<lparr>verb = DELETE, url = baseURL @ ''/documents/'' @ enc fname, headers = [],
                  body = NoBody\<rparr> n)"
    by (simp add: deleteDocument_def split: prod.splits sum.splits)
  have h: "snd (healthCheck baseURL n) = snd (fetch \<lparr>verb = GET, url = baseURL @ ''/'', headers = [], body = NoBody\<rparr> n)"
    by (simp add: healthCheck_def split: prod.splits sum.splits)
  show ?thesis
    unfolding up q qs l d h sent_fetch by simp
qed

theorem client_endpoints_witness:
  "sent (snd (deleteDocument (\<lambda>s. concat (map (\<lambda>c. if c = CHR '' '' then ''%20'' else [c]) s))
       ''http://localhost:8000'' ''my notes.txt'' \<lparr>sent = [], script = []\<rparr>))
     = [\<lparr>verb = DELETE, url = ''http://localhost:8000/documents/my%20notes.txt'', headers = [],
         body = NoBody\<rparr>]"
  using client_endpoints [of "''http://localhost:8000''" "\<lparr>file_name = ''a.txt''\<rparr>"
      "\<lparr>sent = [], script = []\<rparr>"
      "\<lparr>query = ''q'', top_k = None, filename = None, stream = None\<rparr>"
      "toy_parse" "\<lambda>s. concat (map (\<lambda>c. if c = CHR '' '' then ''%20'' else [c]) s)" "''my notes.txt''"]
  by simp

subsection \<open>Responses that are not ok\<close>








section \<open>The chat interface\<close>

text \<open>
  The component \<open>ChatInterface\<close>. Its state is the three \<open>useState\<close> cells, the
  prop \<open>selectedDocument\<close>, the call of \<open>handleSubmit\<close> that is running (if one is)
  and the network.
\<close>

datatype role = User | Assistant

text \<open>
  The interface \<open>Message\<close>. The field \<open>sources\<close> holds whatever the stream gave as
  sources; it is \<open>None\<close> where the field is undefined or left out, as in the message of
  the user.
\<close>

record Message =
  role :: role
  content :: string
  sources :: "json option"

text \<open>
  A running \<open>handleSubmit\<close>: its locals \<open>fullAnswer\<close> and \<open>sources\<close> (here
  \<open>sources_local\<close>, as \<open>sources\<close> is the field of a message), and what the generator
  \<open>streamGen\<close> has still to give.
\<close>

record running =
  fullAnswer :: string
  sources_local :: "json option"
  streamGen :: outcome

record chat =
  messages :: "Message list"
  input :: string
  isLoading :: bool
  selectedDocument :: "string option"
  handler :: "running option"
  network :: net

definition initial_chat :: "string option \<Rightarrow> net \<Rightarrow> chat" where
  "initial_chat sel n =
     \<lparr>messages = [], input = [], isLoading = False, selectedDocument = sel,
      handler = None, network = n\<rparr>"


text \<open>
  The warning sign of the messages (U+26A0 U+FE0F, in UTF-8), and the text before the
  message of a caught error.
\<close>

definition warning_sign :: string where
  "warning_sign = [CHR 0xE2, CHR 0x9A, CHR 0xA0, CHR 0xEF, CHR 0xB8, CHR 0x8F]"



text \<open>
  \<open>handleSubmit\<close> up to its first \<open>await\<close>: the guard, the message of the user, the call
  of \<open>queryStream\<close> (whose request leaves at once) and the empty message of the assistant.
  What the generator will give is kept in \<open>handler\<close>.
\<close>

definition handleSubmit :: "(string \<Rightarrow> string + json) \<Rightarrow> string \<Rightarrow> chat \<Rightarrow> chat" where
  "handleSubmit parse baseURL c =
     (if trim (input c) = [] \<or> isLoading c then c
      else
        (case queryStream parse baseURL
                \<lparr>query = input c, top_k = Some 5, filename = selectedDocument c,
                 stream = Some True\<rparr> (network c) of
           (gen, n') \<Rightarrow>
             c\<lparr>messages := (messages c @ [\<lparr>role = User, content = input c, sources = None\<rparr>])
                              @ [\<lparr>role = Assistant, content = [], sources = Some (JArray [])\<rparr>],
               input := [],
               isLoading := True,
               handler := Some \<lparr>fullAnswer = [], sources_local = Some (JArray []),
                                streamGen = gen\<rparr>,
               network := n'\<rparr>))"






subsection \<open>What the user can submit\<close>












subsection \<open>The request of a question\<close>

lemma sent_queryStream:
  "sent (snd (queryStream parse baseURL request n))
     = sent n @ [\<lparr>verb = POST, url = baseURL @ ''/query/stream'',
                  headers = [(''Content-Type'', ''application/json'')], body = JsonBody request\<rparr>]"
proof -
  have "snd (queryStream parse baseURL request n)
      = snd (fetch \<lparr>verb = POST, url = baseURL @ ''/query/stream'',
                  headers = [(''Content-Type'', ''application/json'')], body = JsonBody request\<rparr> n)"
    by (simp add: queryStream_def split: prod.splits sum.splits option.splits)
  then show ?thesis by (simp add: sent_fetch)
qed

text \<open>
  Claim C6. A question that passes the guard of \<open>handleSubmit\<close> sends one request, to
  \<open>/query/stream\<close>, whose body asks for \<open>top_k = 5\<close> and whose field \<open>filename\<close>
  is the selected document: the name of the document when one is selected, and absent when
  none is.
\<close>

theorem submitted_request:
  assumes "trim (input c) \<noteq> []" and "\<not> isLoading c"
  shows "sent (network (handleSubmit parse baseURL c))
       = sent (network c)
         @ [\<lparr>verb = POST, url = baseURL @ ''/query/stream'',
             headers = [(''Content-Type'', ''application/json'')],
             body = JsonBody \<lparr>query = input c, top_k = Some 5, filename = selectedDocument c,
                              stream = Some True\<rparr>\<rparr>]"
  using assms sent_queryStream [of parse baseURL
      "\<lparr>query = input c, top_k = Some 5, filename = selectedDocument c, stream = Some True\<rparr>"
      "network c"]
  by (auto simp: handleSubmit_def split: prod.splits)

lemma trim_question: "trim ''What is RAG?'' = ''What is RAG?''"
  by (simp add: trim_def strip_leading.simps whiteSpace_def startsWith_def)

theorem submitted_request_witness:
  "sent (network (handleSubmit toy_parse ''http://localhost:8000''
       ((initial_chat (Some ''notes.md'') \<lparr>sent = [], script = [Inr (streamed [])]\<rparr>)
          \<lparr>input := ''What is RAG?''\<rparr>)))
     = [\<lparr>verb = POST, url = ''http://localhost:8000/query/stream'',
         headers = [(''Content-Type'', ''application/json'')],
         body = JsonBody \<lparr>query = ''What is RAG?'', top_k = Some 5, filename = Some ''notes.md'',
                          stream = Some True\<rparr>\<rparr>]
   \<and> sent (network (handleSubmit toy_parse ''http://localhost:8000''
       ((initial_chat None \<lparr>sent = [], script = [Inr (streamed [])]\<rparr>)
          \<lparr>input := ''What is RAG?''\<rparr>)))
     = [\<lparr>verb = POST, url = ''http://localhost:8000/query/stream'',
         headers = [(''Content-Type'', ''application/json'')],
         body = JsonBody \<lparr>query = ''What is RAG?'', top_k = Some 5, filename = None,
                          stream = Some True\<rparr>\<rparr>]"
proof -
  let ?c1 = "(initial_chat (Some ''notes.md'') \<lparr>sent = [], script = [Inr (streamed [])]\<rparr>)
          \<lparr>input := ''What is RAG?''\<rparr>"
  let ?c2 = "(initial_chat None \<lparr>sent = [], script = [Inr (streamed [])]\<rparr>)
          \<lparr>input := ''What is RAG?''\<rparr>"
  have g1: "trim (input ?c1) \<noteq> []" "\<not> isLoading ?c1"
    by (simp_all add: trim_question initial_chat_def)
  have g2: "trim (input ?c2) \<noteq> []" "\<not> isLoading ?c2"
    by (simp_all add: trim_question initial_chat_def)
  show ?thesis
    using submitted_request [OF g1, of toy_parse "''http://localhost:8000''"]
      submitted_request [OF g2, of toy_parse "''http://localhost:8000''"]
    by (simp add: initial_chat_def)
qed

subsection \<open>The answer that is shown\<close>
























section \<open>The uploader\<close>

text \<open>
  The component \<open>DocumentUploader\<close>: its \<open>useState\<close> cells \<open>uploading\<close> and
  \<open>uploadStatus\<close>, the timers it has set for the callback \<open>onUploadSuccess\<close>, and the
  network.
\<close>

datatype status_type = StatusSuccess | StatusError

record uploadStatus =
  status_type :: "status_type option"
  status_message :: string

record uploader =
  uploading :: bool
  uploadStatus :: uploadStatus
  timers :: nat
  upload_network :: net

text \<open>
  \<^verbatim>\<open>
  const validExtensions = ['.pdf', '.docx', '.doc', '.md', '.markdown', '.txt'];
  const fileExt = '.' + file.name.split('.').pop()?.toLowerCase();
  \<close>
  \<open>split\<close> gives at least one part, so \<open>pop\<close> gives the last one.
\<close>

definition validExtensions :: "string list" where
  "validExtensions = [''.pdf'', ''.docx'', ''.doc'', ''.md'', ''.markdown'', ''.txt'']"

definition fileExt :: "File \<Rightarrow> string" where
  "fileExt f = ''.'' @ toLowerCase (last (split_str (CHR ''.'') (file_name f)))"

text \<open>The other signs of the status messages, in UTF-8: U+2713, U+2022 and U+2715.\<close>

definition check_mark :: string where
  "check_mark = [CHR 0xE2, CHR 0x9C, CHR 0x93]"

definition bullet :: string where
  "bullet = [CHR 0xE2, CHR 0x80, CHR 0xA2]"

definition cross_mark :: string where
  "cross_mark = [CHR 0xE2, CHR 0x9C, CHR 0x95]"

text \<open>
  The \<open>catch\<close> block of \<open>handleFile\<close> followed by its \<open>finally\<close> block, after the
  call of the API:
  \<^verbatim>\<open>
  setUploadStatus({ type: 'error', message: `(cross) ${error.message || 'Upload failed'}` });
  setUploading(false);
  \<close>
\<close>

definition upload_failed :: "exn \<Rightarrow> net \<Rightarrow> uploader \<Rightarrow> uploader" where
  "upload_failed error n' u =
     u\<lparr>uploading := False,
       uploadStatus :=
         \<lparr>status_type = Some StatusError,
          status_message = cross_mark @ '' '' @ js_or (Some (message error)) ''Upload failed''\<rparr>,
       upload_network := n'\<rparr>"

text \<open>
  \<open>handleFile\<close>, from the call to the end of its \<open>finally\<close> block. The states in
  between (\<open>uploading\<close> set, the status cleared) are not kept. \<open>onUploadSuccess\<close> says
  whether the parent passed the callback. The result of the upload is any JSON value:
  reading \<open>result.filename\<close> throws when it is \<open>null\<close>, inside the \<open>try\<close> block.
\<close>

definition handleFile :: "bool \<Rightarrow> string \<Rightarrow> File \<Rightarrow> uploader \<Rightarrow> uploader" where
  "handleFile onUploadSuccess baseURL f u =
     (if fileExt f \<notin> set validExtensions then
        u\<lparr>uploadStatus :=
            \<lparr>status_type = Some StatusError,
             status_message = warning_sign @ '' Unsupported format. Accepted: ''
                                @ join '', '' validExtensions\<rparr>\<rparr>
      else
        (case uploadDocument baseURL f (upload_network u) of
           (Inl error, n') \<Rightarrow> upload_failed error n' u
         | (Inr result, n') \<Rightarrow>
             (case property result ''filename'' of
                Inl error \<Rightarrow> upload_failed error n' u
              | Inr name \<Rightarrow>
                  u\<lparr>uploading := False,
                    uploadStatus :=
                      \<lparr>status_type = Some StatusSuccess,
                       status_message = check_mark @ '' '' @ text_of name
                          @ '' uploaded '' @ bullet @ '' ''
                          @ text_of (field result ''chunks_created'') @ '' chunks indexed''\<rparr>,
                    timers := (if onUploadSuccess then timers u + 1 else timers u),
                    upload_network := n'\<rparr>)))"

text \<open>
  The final extension of a file name as claim C9 speaks of it: the dot that is last in
  the name and what follows it. A name without a dot has none.
\<close>

definition final_extension :: "string \<Rightarrow> string option" where
  "final_extension nm =
     (if CHR ''.'' \<in> set nm
      then Some (CHR ''.'' # rev (takeWhile (\<lambda>ch. ch \<noteq> CHR ''.'') (rev nm)))
      else None)"

lemma length_split_str: "length (split_str c s) = Suc (length (filter (\<lambda>ch. ch = c) s))"
  by (induction s) (auto split: list.splits)

lemma last_split_str: "last (split_str c s) = rev (takeWhile (\<lambda>ch. ch \<noteq> c) (rev s))"
proof (induction s)
  case Nil
  show ?case by simp
next
  case (Cons x xs)
  show ?case
  proof (cases "x = c")
    case True
    with Cons show ?thesis
      by (simp add: split_str_nonempty takeWhile_append)
  next
    case False
    obtain l ls where sp: "split_str c xs = l # ls"
      using split_str_nonempty [of c xs] by (cases "split_str c xs") auto
    show ?thesis
    proof (cases "c \<in> set xs")
      case True
      then have "filter (\<lambda>ch. ch = c) xs \<noteq> []"
        by (simp add: filter_empty_conv)
      then have "ls \<noteq> []"
        using length_split_str [of c xs] sp by (cases "filter (\<lambda>ch. ch = c) xs") auto
      with True False sp Cons show ?thesis
        by (auto simp: takeWhile_append)
    next
      case no: False
      with False show ?thesis
        by (simp add: split_str_no_sep takeWhile_append)
    qed
  qed
qed

lemma toLowerCase_dot: "toLowerCase (CHR ''.'' # s) = CHR ''.'' # toLowerCase s"
  by (simp add: kelvin_sign_def lower_char_def)

lemma fileExt_final_extension:
  "final_extension (file_name f) = Some e \<Longrightarrow> fileExt f = toLowerCase e"
  by (auto simp: final_extension_def fileExt_def last_split_str toLowerCase_dot
      simp del: toLowerCase.simps split: if_splits)

lemma fileExt_dotless:
  "final_extension (file_name f) = None \<Longrightarrow> fileExt f = ''.'' @ toLowerCase (file_name f)"
  by (simp add: final_extension_def fileExt_def split_str_no_sep split: if_splits)

text \<open>
  Where the name has a dot, \<open>handleFile\<close> does what claim C9 says: a final extension
  outside the list gives the error status and no request, and an accepted file is uploaded
  by exactly one request.
\<close>

lemma handleFile_rejected:
  "fileExt f \<notin> set validExtensions \<Longrightarrow>
   upload_network (handleFile cb baseURL f u) = upload_network u
   \<and> status_type (uploadStatus (handleFile cb baseURL f u)) = Some StatusError"
  by (simp add: handleFile_def)

lemma handleFile_accepted:
  "fileExt f \<in> set validExtensions \<Longrightarrow>
   sent (upload_network (handleFile cb baseURL f u))
     = sent (upload_network u)
       @ [\<lparr>verb = POST, url = baseURL @ ''/upload'', headers = [], body = FormData [(''file'', f)]\<rparr>]"
proof -
  assume a: "fileExt f \<in> set validExtensions"
  have "snd (uploadDocument baseURL f (upload_network u))
      = snd (fetch \<lparr>verb = POST, url = baseURL @ ''/upload'', headers = [],
                    body = FormData [(''file'', f)]\<rparr> (upload_network u))"
    by (simp add: uploadDocument_def split: prod.splits sum.splits)
  then have "sent (snd (uploadDocument baseURL f (upload_network u)))
      = sent (upload_network u)
       @ [\<lparr>verb = POST, url = baseURL @ ''/upload'', headers = [], body = FormData [(''file'', f)]\<rparr>]"
    by (simp add: sent_fetch)
  with a show ?thesis
    by (auto simp: handleFile_def upload_failed_def split: prod.splits sum.splits)
qed

lemma handleFile_other_extension:
  "final_extension (file_name f) = Some e \<Longrightarrow> toLowerCase e \<notin> set validExtensions \<Longrightarrow>
   upload_network (handleFile cb baseURL f u) = upload_network u
   \<and> status_type (uploadStatus (handleFile cb baseURL f u)) = Some StatusError"
  by (simp add: handleFile_rejected fileExt_final_extension)

text \<open>A name whose extension is written with the Kelvin sign is accepted, as by the code.\<close>

lemma fileExt_kelvin:
  "fileExt \<lparr>file_name = ''a.mar'' @ kelvin_sign @ ''down''\<rparr> = ''.markdown''"
  by (simp add: fileExt_def kelvin_sign_def lower_char_def)

definition idle_uploader :: "net \<Rightarrow> uploader" where
  "idle_uploader n =
     \<lparr>uploading = False, uploadStatus = \<lparr>status_type = None, status_message = []\<rparr>,
      timers = 0, upload_network = n\<rparr>"

text \<open>
  Claim C9 at a name without a dot. The file named \<open>txt\<close> has no extension, so its
  final extension is not one of the six, yet \<open>handleFile\<close> uploads it: the last part of
  \<open>'txt'.split('.')\<close> is the whole name, and \<open>fileExt\<close> is \<open>.txt\<close>. Names with a
  dot are judged by their final extension: \<open>notes.TXT\<close> is accepted as \<open>.txt\<close>, and
  \<open>archive.tar.gz\<close> is refused with nothing sent.
\<close>

theorem handleFile_dotless_name:
  "final_extension ''txt'' = None
   \<and> sent (upload_network (handleFile True ''http://localhost:8000'' \<lparr>file_name = ''txt''\<rparr>
        (idle_uploader \<lparr>sent = [], script = []\<rparr>)))
     = [\<lparr>verb = POST, url = ''http://localhost:8000/upload'', headers = [],
         body = FormData [(''file'', \<lparr>file_name = ''txt''\<rparr>)]\<rparr>]
   \<and> final_extension ''notes.TXT'' = Some ''.TXT''
   \<and> fileExt \<lparr>file_name = ''notes.TXT''\<rparr> = ''.txt''
   \<and> final_extension ''archive.tar.gz'' = Some ''.gz''
   \<and> upload_network (handleFile True ''http://localhost:8000'' \<lparr>file_name = ''archive.tar.gz''\<rparr>
        (idle_uploader \<lparr>sent = [], script = []\<rparr>)) = \<lparr>sent = [], script = []\<rparr>"
  by (simp add: final_extension_def handleFile_def fileExt_def kelvin_sign_def lower_char_def
      validExtensions_def uploadDocument_def fetch_def idle_uploader_def upload_failed_def)

section \<open>The backend, from the specification\<close>

text \<open>
  The chunker, the hybrid retriever and the embedding cache are parts of the backend, whose
  code is not among the sources at hand. They are modelled from what the specification
  says of them.
\<close>

subsection \<open>The chunker\<close>

text \<open>
  Modelled from the spec: the chunker (\<open>backend/chunking.py\<close> is missing). It "splits
  text into overlapping fixed-size windows". The text is a list of tokens; a window has
  \<open>chunk_size\<close> tokens and the next one starts \<open>chunk_size - overlap\<close> tokens later;
  the last window is what is left. A text with no token has no chunk.
\<close>

function windows :: "nat \<Rightarrow> nat \<Rightarrow> 'a list \<Rightarrow> 'a list list" where
  "windows chunk_size overlap ts =
     (if chunk_size \<le> overlap \<or> ts = [] then []
      else if length ts \<le> chunk_size then [ts]
      else take chunk_size ts # windows chunk_size overlap (drop (chunk_size - overlap) ts))"
  by pat_completeness auto
termination
  by (relation "measure (\<lambda>(chunk_size, overlap, ts). length ts)") auto

declare windows.simps [simp del]

text \<open>
  Modelled from the spec: the configuration of the chunker (\<open>backend/config.py\<close> is
  missing), "a fixed token budget and overlap". An overlap that is not below the size of a
  chunk leaves no room to advance, and is refused.
\<close>

datatype config_error = OverlapNotBelowSize

definition chunk_text :: "nat \<Rightarrow> nat \<Rightarrow> 'a list \<Rightarrow> config_error + 'a list list" where
  "chunk_text chunk_size overlap ts =
     (if chunk_size \<le> overlap then Inl OverlapNotBelowSize else Inr (windows chunk_size overlap ts))"

lemma windows_length: "c \<in> set (windows chunk_size overlap ts) \<Longrightarrow> length c \<le> chunk_size"
proof (induction chunk_size overlap ts rule: windows.induct)
  case (1 chunk_size overlap ts)
  then show ?case
    by (subst (asm) (2) windows.simps) (auto split: if_splits)
qed

lemma windows_sublist: "c \<in> set (windows chunk_size overlap ts) \<Longrightarrow> sublist c ts"
proof (induction chunk_size overlap ts rule: windows.induct)
  case (1 chunk_size overlap ts)
  from "1.prems" consider
      (whole) "c = ts"
    | (first) "c = take chunk_size ts"
    | (later) "\<not> (chunk_size \<le> overlap \<or> ts = [])" "\<not> length ts \<le> chunk_size"
        "c \<in> set (windows chunk_size overlap (drop (chunk_size - overlap) ts))"
    by (subst (asm) windows.simps) (auto split: if_splits)
  then show ?case
  proof cases
    case whole
    then show ?thesis by simp
  next
    case first
    then show ?thesis by (simp add: sublist_take)
  next
    case later
    then have "sublist c (drop (chunk_size - overlap) ts)" by (rule "1.IH")
    then show ?thesis by (rule sublist_order.order_trans) (rule sublist_drop)
  qed
qed

lemma take_overlap_hd_windows:
  "overlap < chunk_size \<Longrightarrow> overlap < length ts \<Longrightarrow>
   take overlap (hd (windows chunk_size overlap ts)) = take overlap ts"
  by (subst windows.simps) auto

lemma windows_nonempty: "overlap < chunk_size \<Longrightarrow> ts \<noteq> [] \<Longrightarrow> windows chunk_size overlap ts \<noteq> []"
  by (subst windows.simps) auto

lemma windows_many:
  "Suc i < length (windows chunk_size overlap ts) \<Longrightarrow> chunk_size < length ts"
  by (subst (asm) windows.simps) (simp split: if_splits)

lemma windows_overlap:
  "overlap < chunk_size \<Longrightarrow> Suc i < length (windows chunk_size overlap ts) \<Longrightarrow>
   drop (chunk_size - overlap) (windows chunk_size overlap ts ! i)
     = take overlap (windows chunk_size overlap ts ! Suc i)"
proof (induction chunk_size overlap ts arbitrary: i rule: windows.induct)
  case (1 chunk_size overlap ts)
  let ?rest = "drop (chunk_size - overlap) ts"
  have long: "\<not> length ts \<le> chunk_size" and ne: "ts \<noteq> []"
    using windows_many [OF "1.prems"(2)] by auto
  have unfold: "windows chunk_size overlap ts = take chunk_size ts # windows chunk_size overlap ?rest"
    using long ne "1.prems"(1) by (subst windows.simps) auto
  have rest_long: "overlap < length ?rest" using long "1.prems"(1) by simp
  show ?case
  proof (cases i)
    case 0
    have "windows chunk_size overlap ?rest \<noteq> []"
      using rest_long "1.prems"(1) by (intro windows_nonempty) auto
    then have "windows chunk_size overlap ?rest ! 0 = hd (windows chunk_size overlap ?rest)"
      by (simp add: hd_conv_nth)
    then have "take overlap (windows chunk_size overlap ts ! Suc 0) = take overlap ?rest"
      using take_overlap_hd_windows [OF "1.prems"(1) rest_long] by (simp add: unfold)
    moreover have "drop (chunk_size - overlap) (take chunk_size ts) = take overlap ?rest"
      using "1.prems"(1) by (simp add: drop_take)
    ultimately show ?thesis using 0 by (simp add: unfold)
  next
    case (Suc j)
    have "Suc j < length (windows chunk_size overlap ?rest)"
      using "1.prems"(2) Suc by (simp add: unfold)
    then have "drop (chunk_size - overlap) (windows chunk_size overlap ?rest ! j)
        = take overlap (windows chunk_size overlap ?rest ! Suc j)"
      using "1.IH" long ne "1.prems"(1) by simp
    then show ?thesis using Suc by (simp add: unfold)
  qed
qed

text \<open>
  Claim C3. With an overlap below the size of a chunk, the chunker gives chunks for every
  text: each is a contiguous slice of the text and has at most \<open>chunk_size\<close> tokens,
  and of two consecutive chunks the first ends with the \<open>overlap\<close> tokens the second
  begins with.
\<close>

theorem chunks_are_bounded_overlapping_slices:
  assumes "overlap < chunk_size"
  shows "\<exists>cs. chunk_text chunk_size overlap ts = Inr cs
          \<and> (\<forall>c \<in> set cs. sublist c ts \<and> length c \<le> chunk_size)
          \<and> (\<forall>i. Suc i < length cs \<longrightarrow> drop (chunk_size - overlap) (cs ! i) = take overlap (cs ! Suc i))"
  using assms
  by (simp add: chunk_text_def windows_length windows_sublist windows_overlap)

theorem chunks_witness:
  "chunk_text 4 1 ''abcdefghij'' = Inr [''abcd'', ''defg'', ''ghij'']
   \<and> sublist ''defg'' ''abcdefghij'' \<and> length ''defg'' \<le> (4 :: nat)
   \<and> drop (4 - 1) ''abcd'' = take 1 ''defg''"
proof -
  have ev: "chunk_text 4 1 ''abcdefghij'' = Inr [''abcd'', ''defg'', ''ghij'']"
    by (simp add: chunk_text_def windows.simps)
  obtain cs where cs: "chunk_text 4 1 ''abcdefghij'' = Inr cs"
    and each: "\<forall>c \<in> set cs. sublist c ''abcdefghij'' \<and> length c \<le> 4"
    and ov: "\<forall>i. Suc i < length cs \<longrightarrow> drop (4 - 1) (cs ! i) = take 1 (cs ! Suc i)"
    using chunks_are_bounded_overlapping_slices [of 1 4 "''abcdefghij''"] by auto
  from cs ev have eq: "cs = [''abcd'', ''defg'', ''ghij'']" by simp
  from each eq have "sublist ''defg'' ''abcdefghij'' \<and> length ''defg'' \<le> (4 :: nat)" by simp
  moreover from ov [rule_format, of 0] eq have "drop (4 - 1) ''abcd'' = take 1 ''defg''" by simp
  ultimately show ?thesis using ev by simp
qed

subsection \<open>The hybrid retriever\<close>

text \<open>
  Modelled from the spec: the weighted sum of the hybrid retriever
  (\<open>backend/retrieval.py\<close> is missing), "a weighted sum to merge scores" with "a fixed
  weighting". Scores are exact rationals.
\<close>

definition merged_score :: "rat \<Rightarrow> rat \<Rightarrow> rat \<Rightarrow> rat \<Rightarrow> rat" where
  "merged_score w_vector w_keyword v k = w_vector * v + w_keyword * k"

text \<open>
  Modelled from the spec: the candidates of the hybrid retriever with their merged scores
  (\<open>backend/retrieval.py\<close> is missing). The candidates are the chunks the vector store
  found, with their similarity; the keyword utility gives each its keyword score.
\<close>

definition score_candidates ::
  "rat \<Rightarrow> rat \<Rightarrow> ('c \<Rightarrow> rat) \<Rightarrow> ('c \<times> rat) list \<Rightarrow> ('c \<times> rat) list" where
  "score_candidates w_vector w_keyword keyword found =
     map (\<lambda>(c, v). (c, merged_score w_vector w_keyword v (keyword c))) found"

text \<open>
  Modelled from the spec: the hybrid retriever (\<open>backend/retrieval.py\<close> is missing),
  "one call to a vector-store client, one call to a keyword-scoring utility, a weighted sum
  to merge scores", giving "a final top-k context set": the \<open>k\<close> candidates of highest
  merged score, highest first.
\<close>

definition hybrid_retrieve ::
  "('q \<Rightarrow> ('c \<times> rat) list) \<Rightarrow> ('q \<Rightarrow> 'c \<Rightarrow> rat) \<Rightarrow> rat \<Rightarrow> rat \<Rightarrow> nat \<Rightarrow> 'q \<Rightarrow> ('c \<times> rat) list" where
  "hybrid_retrieve vector_search keyword_score w_vector w_keyword k q =
     take k (sort_key (\<lambda>(c, s). - s)
       (score_candidates w_vector w_keyword (keyword_score q) (vector_search q)))"

lemma sorted_wrt_sort_key_desc:
  "sorted_wrt (\<lambda>a b. snd b \<le> snd a) (sort_key (\<lambda>(c, s). - s) (xs :: ('c \<times> rat) list))"
proof -
  have "sorted (map (\<lambda>(c, s). - s) (sort_key (\<lambda>(c, s). - s) xs))"
    by (rule sorted_sort_key)
  then show ?thesis
    by (simp add: sorted_map case_prod_beta) 
qed

text \<open>
  Claim C2. For every query, the score of each result is the weighted sum, with the two
  fixed weights, of the vector similarity and the keyword score of its chunk; the results
  are in descending order of that score; they are \<open>k\<close> of the candidates (all of them
  when there are fewer); and no candidate left out has a higher score than a result.
\<close>

theorem hybrid_ranks_by_weighted_sum:
  fixes vector_search :: "'q \<Rightarrow> ('c \<times> rat) list"
  shows "(\<forall>r \<in> set (hybrid_retrieve vector_search keyword_score w_vector w_keyword k q).
            \<exists>v. (fst r, v) \<in> set (vector_search q)
               \<and> snd r = w_vector * v + w_keyword * keyword_score q (fst r))
       \<and> sorted_wrt (\<lambda>a b. snd b \<le> snd a)
            (hybrid_retrieve vector_search keyword_score w_vector w_keyword k q)
       \<and> length (hybrid_retrieve vector_search keyword_score w_vector w_keyword k q)
            = min k (length (vector_search q))
       \<and> mset (hybrid_retrieve vector_search keyword_score w_vector w_keyword k q)
            \<subseteq># mset (score_candidates w_vector w_keyword (keyword_score q) (vector_search q))
       \<and> (\<forall>r \<in> set (hybrid_retrieve vector_search keyword_score w_vector w_keyword k q).
            \<forall>c \<in># mset (score_candidates w_vector w_keyword (keyword_score q) (vector_search q))
                    - mset (hybrid_retrieve vector_search keyword_score w_vector w_keyword k q).
              snd c \<le> snd r)"
proof -
  let ?scored = "score_candidates w_vector w_keyword (keyword_score q) (vector_search q)"
  let ?ranked = "sort_key (\<lambda>(c, s). - s) ?scored"
  let ?top = "hybrid_retrieve vector_search keyword_score w_vector w_keyword k q"
  have top: "?top = take k ?ranked" by (simp add: hybrid_retrieve_def)
  have sorted: "sorted_wrt (\<lambda>a b. snd b \<le> snd a) ?ranked" by (rule sorted_wrt_sort_key_desc)
  have split: "?ranked = ?top @ drop k ?ranked" by (simp add: top)
  have ms: "mset ?scored = mset ?top + mset (drop k ?ranked)"
    by (metis split mset_append mset_sort)
  have a: "\<forall>r \<in> set ?top. \<exists>v. (fst r, v) \<in> set (vector_search q)
               \<and> snd r = w_vector * v + w_keyword * keyword_score q (fst r)"
  proof
    fix r assume "r \<in> set ?top"
    then have "r \<in> set ?ranked" unfolding top by (rule in_set_takeD)
    then have "r \<in> set ?scored" by simp
    then show "\<exists>v. (fst r, v) \<in> set (vector_search q)
               \<and> snd r = w_vector * v + w_keyword * keyword_score q (fst r)"
      by (auto simp: score_candidates_def merged_score_def)
  qed
  have b: "sorted_wrt (\<lambda>a b. snd b \<le> snd a) ?top"
    unfolding top using sorted by (rule sorted_wrt_take)
  have c: "length ?top = min k (length (vector_search q))"
    by (simp add: top score_candidates_def min.commute)
  have d: "mset ?top \<subseteq># mset ?scored" by (simp add: ms)
  have e: "\<forall>r \<in> set ?top. \<forall>c \<in># mset ?scored - mset ?top. snd c \<le> snd r"
  proof -
    have "mset ?scored - mset ?top = mset (drop k ?ranked)" by (simp add: ms)
    moreover have "\<forall>r \<in> set ?top. \<forall>c \<in> set (drop k ?ranked). snd c \<le> snd r"
      using sorted by (subst (asm) split) (auto simp: sorted_wrt_append)
    ultimately show ?thesis by simp
  qed
  from a b c d e show ?thesis by blast
qed

text \<open>Data for evaluating the retriever: three chunks found, two of them with keyword hits.\<close>

definition example_index :: "string \<Rightarrow> (string \<times> rat) list" where
  "example_index q = [(''c1'', 1/2), (''c2'', 9/10), (''c3'', 7/10)]"

definition example_keyword :: "string \<Rightarrow> string \<Rightarrow> rat" where
  "example_keyword q c = (if c = ''c1'' then 1 else if c = ''c3'' then 1/2 else 0)"

theorem hybrid_witness:
  "hybrid_retrieve example_index example_keyword (7/10) (3/10) 2 ''rag''
     = [(''c1'', 13/20), (''c3'', 16/25)]
   \<and> sorted_wrt (\<lambda>a b. snd b \<le> snd a) [(''c1'', 13/20 :: rat), (''c3'', 16/25)]
   \<and> 13/20 = (7/10) * (1/2) + (3/10) * example_keyword ''rag'' ''c1''"
proof -
  have ev: "hybrid_retrieve example_index example_keyword (7/10) (3/10) 2 ''rag''
     = [(''c1'', 13/20), (''c3'', 16/25)]"
    by (simp add: hybrid_retrieve_def score_candidates_def merged_score_def example_index_def
        example_keyword_def)
  note inst = hybrid_ranks_by_weighted_sum [of example_index example_keyword "7/10" "3/10" 2 "''rag''"]
  from inst have "sorted_wrt (\<lambda>a b. snd b \<le> snd a)
      (hybrid_retrieve example_index example_keyword (7/10) (3/10) 2 ''rag'')" by blast
  then have s: "sorted_wrt (\<lambda>a b. snd b \<le> snd a) [(''c1'', 13/20 :: rat), (''c3'', 16/25)]"
    unfolding ev .
  have "13/20 = (7/10) * (1/2) + (3/10) * example_keyword ''rag'' ''c1''"
    by (simp add: example_keyword_def)
  with ev s show ?thesis by blast
qed

subsection \<open>The embedding cache\<close>

text \<open>
  Modelled from the spec: the local key-value store of the embedding cache
  (\<open>backend/embeddings.py\<close> is missing), with the number of calls made to the embeddings
  provider so far.
\<close>

record ('k, 'v) embedding_cache =
  store :: "'k \<rightharpoonup> 'v"
  provider_calls :: nat

text \<open>
  Modelled from the spec: the lookup of the embedding cache (\<open>backend/embeddings.py\<close> is
  missing). It "hashes chunk text, stores/retrieves vector embeddings in a local key-value
  store to avoid recomputation". The hash and the provider are parameters; the provider may
  answer differently from one call to the next, so it is given the number of the call.
\<close>

definition get_embedding ::
  "(string \<Rightarrow> 'k) \<Rightarrow> (nat \<Rightarrow> string \<Rightarrow> 'v) \<Rightarrow> string \<Rightarrow> ('k, 'v) embedding_cache
     \<Rightarrow> 'v \<times> ('k, 'v) embedding_cache" where
  "get_embedding hash provider txt cache =
     (case store cache (hash txt) of
        Some v \<Rightarrow> (v, cache)
      | None \<Rightarrow>
          (provider (provider_calls cache) txt,
           cache\<lparr>store := (store cache)(hash txt \<mapsto> provider (provider_calls cache) txt),
                 provider_calls := provider_calls cache + 1\<rparr>))"

text \<open>
  Modelled from the spec: a sequence of embedding requests, one text after another, on the
  same cache (\<open>backend/embeddings.py\<close> is missing).
\<close>

fun get_embeddings ::
  "(string \<Rightarrow> 'k) \<Rightarrow> (nat \<Rightarrow> string \<Rightarrow> 'v) \<Rightarrow> string list \<Rightarrow> ('k, 'v) embedding_cache
     \<Rightarrow> 'v list \<times> ('k, 'v) embedding_cache" where
  "get_embeddings hash provider [] cache = ([], cache)"
| "get_embeddings hash provider (t # ts) cache =
     (fst (get_embedding hash provider t cache)
        # fst (get_embeddings hash provider ts (snd (get_embedding hash provider t cache))),
      snd (get_embeddings hash provider ts (snd (get_embedding hash provider t cache))))"

lemma get_embedding_stored:
  "store (snd (get_embedding hash provider t cache)) (hash t)
     = Some (fst (get_embedding hash provider t cache))"
  by (simp add: get_embedding_def split: option.splits)

lemma get_embedding_keeps:
  "store cache k = Some v \<Longrightarrow> store (snd (get_embedding hash provider t cache)) k = Some v"
  by (auto simp: get_embedding_def split: option.splits)

lemma get_embedding_hit:
  "store cache (hash t) = Some v \<Longrightarrow> get_embedding hash provider t cache = (v, cache)"
  by (simp add: get_embedding_def)

lemma length_get_embeddings: "length (fst (get_embeddings hash provider ts cache)) = length ts"
  by (induction ts arbitrary: cache) simp_all

lemma get_embeddings_hit:
  "store cache (hash t) = Some v \<Longrightarrow> j < length ts \<Longrightarrow> ts ! j = t \<Longrightarrow>
   fst (get_embeddings hash provider ts cache) ! j = v"
proof (induction ts arbitrary: cache j)
  case Nil
  then show ?case by simp
next
  case (Cons x xs)
  obtain v0 c0 where g: "get_embedding hash provider x cache = (v0, c0)" by force
  have kept: "store c0 (hash t) = Some v"
    using get_embedding_keeps [where cache = cache and k = "hash t" and v = v and hash = hash
        and provider = provider and t = x] Cons.prems(1) g by simp
  show ?case
  proof (cases j)
    case 0
    with Cons.prems get_embedding_hit [of cache hash x v provider] show ?thesis
      by simp
  next
    case (Suc j')
    with Cons.prems have "fst (get_embeddings hash provider xs c0) ! j' = v"
      using Cons.IH [of c0 j'] kept by simp
    with Suc g show ?thesis by simp
  qed
qed

lemma get_embeddings_equal_texts_ordered:
  "i < j \<Longrightarrow> j < length ts \<Longrightarrow> ts ! i = ts ! j \<Longrightarrow>
   fst (get_embeddings hash provider ts cache) ! i = fst (get_embeddings hash provider ts cache) ! j"
proof (induction ts arbitrary: cache i j)
  case Nil
  then show ?case by simp
next
  case (Cons x xs)
  obtain v0 c0 where g: "get_embedding hash provider x cache = (v0, c0)" by force
  obtain j' where j: "j = Suc j'" using Cons.prems(1) by (cases j) auto
  show ?case
  proof (cases i)
    case 0
    have st: "store c0 (hash x) = Some v0"
      using get_embedding_stored [of hash provider x cache] g by simp
    have "xs ! j' = x" using Cons.prems 0 j by simp
    then have "fst (get_embeddings hash provider xs c0) ! j' = v0"
      using get_embeddings_hit [where cache = c0 and hash = hash and t = x and v = v0
          and j = j' and ts = xs and provider = provider] st Cons.prems(2) j by simp
    with 0 j g show ?thesis by simp
  next
    case (Suc i')
    with Cons.prems j have "fst (get_embeddings hash provider xs c0) ! i'
        = fst (get_embeddings hash provider xs c0) ! j'"
      using Cons.IH [of i' j' c0] by simp
    with Suc j g show ?thesis by simp
  qed
qed

text \<open>
  Claim C4. After a request for a text, a second request for the same text returns the
  same vector and leaves the cache as it is, the count of provider calls included. And in
  any sequence of requests on a cache, two requests for equal texts receive equal vectors.
\<close>

theorem equal_texts_equal_vectors:
  "(get_embedding hash provider t (snd (get_embedding hash provider t cache))
      = (fst (get_embedding hash provider t cache), snd (get_embedding hash provider t cache)))
   \<and> (\<forall>i j. i < length ts \<and> j < length ts \<and> ts ! i = ts ! j
        \<longrightarrow> fst (get_embeddings hash provider ts cache) ! i
            = fst (get_embeddings hash provider ts cache) ! j)"
proof
  show "get_embedding hash provider t (snd (get_embedding hash provider t cache))
      = (fst (get_embedding hash provider t cache), snd (get_embedding hash provider t cache))"
    by (rule get_embedding_hit) (rule get_embedding_stored)
next
  show "\<forall>i j. i < length ts \<and> j < length ts \<and> ts ! i = ts ! j
        \<longrightarrow> fst (get_embeddings hash provider ts cache) ! i
            = fst (get_embeddings hash provider ts cache) ! j"
  proof (intro allI impI)
    fix i j
    assume a: "i < length ts \<and> j < length ts \<and> ts ! i = ts ! j"
    consider "i < j" | "i = j" | "j < i" by linarith
    then show "fst (get_embeddings hash provider ts cache) ! i
            = fst (get_embeddings hash provider ts cache) ! j"
    proof cases
      case 1
      with a show ?thesis by (simp add: get_embeddings_equal_texts_ordered)
    next
      case 2
      then show ?thesis by simp
    next
      case 3
      with a show ?thesis
        using get_embeddings_equal_texts_ordered [of j i ts hash provider cache] by simp
    qed
  qed
qed

text \<open>Data for evaluating the cache: a provider whose answer depends on the call.\<close>

definition example_provider :: "nat \<Rightarrow> string \<Rightarrow> nat \<times> string" where
  "example_provider call txt = (call, txt)"

theorem equal_texts_witness:
  "fst (get_embeddings (take 2) example_provider [''alpha'', ''beta'', ''alpha'']
       \<lparr>store = Map.empty, provider_calls = 0\<rparr>)
     = [(0, ''alpha''), (1, ''beta''), (0, ''alpha'')]
   \<and> provider_calls (snd (get_embeddings (take 2) example_provider [''alpha'', ''beta'', ''alpha'']
       \<lparr>store = Map.empty, provider_calls = 0\<rparr>)) = 2
   \<and> fst (get_embeddings (take 2) example_provider [''alpha'', ''beta'', ''alpha'']
       \<lparr>store = Map.empty, provider_calls = 0\<rparr>) ! 0
     = fst (get_embeddings (take 2) example_provider [''alpha'', ''beta'', ''alpha'']
       \<lparr>store = Map.empty, provider_calls = 0\<rparr>) ! 2"
proof -
  note inst = equal_texts_equal_vectors [of "take 2" example_provider "''alpha''"
      "\<lparr>store = Map.empty, provider_calls = 0\<rparr>" "[''alpha'', ''beta'', ''alpha'']"]
  have idx: "(0 :: nat) < length [''alpha'', ''beta'', ''alpha''] \<and> (2 :: nat) < length [''alpha'', ''beta'', ''alpha'']
      \<and> [''alpha'', ''beta'', ''alpha''] ! 0 = [''alpha'', ''beta'', ''alpha''] ! 2" by simp
  from inst idx have eq: "fst (get_embeddings (take 2) example_provider [''alpha'', ''beta'', ''alpha'']
       \<lparr>store = Map.empty, provider_calls = 0\<rparr>) ! 0
     = fst (get_embeddings (take 2) example_provider [''alpha'', ''beta'', ''alpha'']
       \<lparr>store = Map.empty, provider_calls = 0\<rparr>) ! 2" by blast
  have ev: "fst (get_embeddings (take 2) example_provider [''alpha'', ''beta'', ''alpha'']
       \<lparr>store = Map.empty, provider_calls = 0\<rparr>)
     = [(0, ''alpha''), (1, ''beta''), (0, ''alpha'')]"
    and calls: "provider_calls (snd (get_embeddings (take 2) example_provider [''alpha'', ''beta'', ''alpha'']
       \<lparr>store = Map.empty, provider_calls = 0\<rparr>)) = 2"
    by (simp_all add: get_embedding_def example_provider_def)
  from ev calls eq show ?thesis by blast
qed

end
